theory Spec2Isabelle
  imports Main "HOL-Library.AList"
begin

section \<open>The recipe cache of \<^verbatim>\<open>src/cache.js\<close>\<close>

text \<open>
  The module keeps one JSON document on disk, an object that maps each cache key to
  \<^verbatim>\<open>{ timestamp, data }\<close>. Every exported function reads the whole file, works on the
  parsed object and (for the two mutating functions) writes the whole object back.
  All functions are \<^verbatim>\<open>async\<close>; the model runs each call to completion, one call at a
  time, and passes the file system along explicitly.
\<close>

subsection \<open>Values\<close>

text \<open>
  What is cached travels through \<^verbatim>\<open>JSON.stringify\<close> and \<^verbatim>\<open>JSON.parse\<close>, so the
  payloads of the model are JSON values; numbers are taken to be integers (the
  timestamps of \<^verbatim>\<open>Date.now()\<close> are).
\<close>

datatype json =
    JNull
  | JBool bool
  | JNum int
  | JStr string
  | JArr "json list"
  | JObj "(string \<times> json) list"

text \<open>
  JavaScript's \<^verbatim>\<open>!data\<close> is true exactly for the falsy values. Among JSON values these
  are \<^verbatim>\<open>null\<close>, \<^verbatim>\<open>false\<close>, \<^verbatim>\<open>0\<close> and the empty string; every array and every
  object is truthy, the empty ones too.
\<close>

fun truthy :: "json \<Rightarrow> bool" where
  "truthy JNull = False"
| "truthy (JBool b) = b"
| "truthy (JNum n) = (n \<noteq> 0)"
| "truthy (JStr s) = (s \<noteq> [])"
| "truthy (JArr xs) = True"
| "truthy (JObj kvs) = True"

record entry =
  timestamp :: int
  data :: json

type_synonym cache = "(string \<times> entry) list"

definition CACHE_DURATION :: int where
  "CACHE_DURATION = 24 * 60 * 60 * 1000"

subsection \<open>The parsed cache object\<close>

text \<open>
  The parsed document is an association list of its own properties. \<^verbatim>\<open>cache[key]\<close>
  read: an own property gives its entry. A key that is no own property gives
  \<^verbatim>\<open>undefined\<close> or something inherited from \<^verbatim>\<open>Object.prototype\<close> (a function, or
  the prototype itself for \<^verbatim>\<open>__proto__\<close>); none of these has a \<^verbatim>\<open>timestamp\<close>, so the
  age test of the callers compares \<^verbatim>\<open>NaN\<close> and fails, which is the branch of
  \<open>None\<close> below.
\<close>

definition obj_get :: "cache \<Rightarrow> string \<Rightarrow> entry option" where
  "obj_get c key = map_of c key"

text \<open>
  \<^verbatim>\<open>cache[key] = item\<close>: an existing own property is overwritten in place, a new one
  is appended. The one exception is the key \<^verbatim>\<open>__proto__\<close> on an object that has no own
  property of that name: the assignment reaches the setter inherited from
  \<^verbatim>\<open>Object.prototype\<close>, which replaces the prototype of \<^verbatim>\<open>cache\<close> and creates no own
  property, so \<^verbatim>\<open>JSON.stringify\<close> (own enumerable properties only) writes nothing for it.
\<close>

definition obj_set :: "cache \<Rightarrow> string \<Rightarrow> entry \<Rightarrow> cache" where
  "obj_set c key item =
     (if key = ''__proto__''
      then (case map_of c key of None \<Rightarrow> c | Some old \<Rightarrow> AList.update key item c)
      else AList.update key item c)"

text \<open>\<^verbatim>\<open>delete cache[key]\<close> removes the own property.\<close>

definition obj_delete :: "cache \<Rightarrow> string \<Rightarrow> cache" where
  "obj_delete c key = AList.delete key c"

subsection \<open>The file system\<close>

text \<open>
  What \<^verbatim>\<open>CACHE_FILE\<close> holds is one of three things to this module: nothing (the file
  does not exist), text that \<^verbatim>\<open>JSON.parse\<close> rejects, or a document of entries. Whether
  reading, writing and creating the directory succeed is the environment's choice, kept
  as three flags. \<open>writes\<close> counts the completed calls of \<^verbatim>\<open>fs.writeFile\<close>, so that a
  call that rewrites the same content is told apart from one that leaves the file alone.
\<close>

datatype medium = Absent | Garbled | Doc cache

record fs =
  medium :: medium
  can_read :: bool
  can_write :: bool
  can_mkdir :: bool
  writes :: nat

text \<open>The calls of \<^verbatim>\<open>fs/promises\<close>; \<open>None\<close> is a rejected promise.\<close>

definition fs_access :: "fs \<Rightarrow> unit option" where
  "fs_access s = (case medium s of Absent \<Rightarrow> None | Garbled \<Rightarrow> Some () | Doc c \<Rightarrow> Some ())"

definition fs_mkdir :: "fs \<Rightarrow> fs option" where
  "fs_mkdir s = (if can_mkdir s then Some s else None)"

definition fs_writeFile :: "fs \<Rightarrow> cache \<Rightarrow> fs option" where
  "fs_writeFile s c =
     (if can_write s then Some (s\<lparr>medium := Doc c, writes := Suc (writes s)\<rparr>) else None)"

definition fs_readFile :: "fs \<Rightarrow> medium option" where
  "fs_readFile s =
     (case medium s of
        Absent \<Rightarrow> None
      | Garbled \<Rightarrow> (if can_read s then Some Garbled else None)
      | Doc c \<Rightarrow> (if can_read s then Some (Doc c) else None))"

text \<open>\<^verbatim>\<open>JSON.parse\<close> of what was read; \<open>None\<close> is the \<^verbatim>\<open>SyntaxError\<close>.\<close>

definition JSON_parse :: "medium \<Rightarrow> cache option" where
  "JSON_parse m = (case m of Absent \<Rightarrow> None | Garbled \<Rightarrow> None | Doc c \<Rightarrow> Some c)"

subsection \<open>The exported functions\<close>

text \<open>
  \<^verbatim>\<open>initializeCache\<close>: when \<^verbatim>\<open>fs.access\<close> rejects, the directory and a file holding
  \<^verbatim>\<open>{}\<close> are created; a failure there is not caught (\<open>None\<close>).
\<close>

definition initializeCache :: "fs \<Rightarrow> fs option" where
  "initializeCache s =
     (case fs_access s of
        Some u \<Rightarrow> Some s
      | None \<Rightarrow> (case fs_mkdir s of None \<Rightarrow> None | Some s1 \<Rightarrow> fs_writeFile s1 []))"

text \<open>
  \<^verbatim>\<open>getFromCache(key)\<close>, with \<open>now\<close> the value of \<^verbatim>\<open>Date.now()\<close>. Every failure is
  caught and answered with \<^verbatim>\<open>null\<close>.
\<close>

definition getFromCache :: "fs \<Rightarrow> string \<Rightarrow> int \<Rightarrow> json" where
  "getFromCache s key now =
     (case fs_readFile s of
        None \<Rightarrow> JNull
      | Some text \<Rightarrow>
          (case JSON_parse text of
             None \<Rightarrow> JNull
           | Some cache \<Rightarrow>
               (case obj_get cache key of
                  None \<Rightarrow> JNull
                | Some cachedItem \<Rightarrow>
                    (if now - timestamp cachedItem < CACHE_DURATION
                     then data cachedItem else JNull))))"

text \<open>
  \<^verbatim>\<open>saveToCache(key, data)\<close>: the result is the boolean and the file system after the
  call. Every failure is caught and answered with \<^verbatim>\<open>false\<close>.
\<close>

definition saveToCache :: "fs \<Rightarrow> string \<Rightarrow> json \<Rightarrow> int \<Rightarrow> bool \<times> fs" where
  "saveToCache s key d now =
     (case initializeCache s of
        None \<Rightarrow> (False, s)
      | Some s1 \<Rightarrow>
          (case fs_readFile s1 of
             None \<Rightarrow> (False, s1)
           | Some text \<Rightarrow>
               (case JSON_parse text of
                  None \<Rightarrow> (False, s1)
                | Some cache \<Rightarrow>
                    (case fs_writeFile s1 (obj_set cache key \<lparr>timestamp = now, data = d\<rparr>) of
                       None \<Rightarrow> (False, s1)
                     | Some s2 \<Rightarrow> (True, s2)))))"

text \<open>
  The \<^verbatim>\<open>for (const key in cache)\<close> loop of \<^verbatim>\<open>clearExpiredCache\<close>: the keys are those
  of the object when the loop starts; the object and the counter change on the way.
\<close>

fun evict_loop :: "int \<Rightarrow> string list \<Rightarrow> cache \<Rightarrow> nat \<Rightarrow> cache \<times> nat" where
  "evict_loop now [] c removedCount = (c, removedCount)"
| "evict_loop now (key # keys) c removedCount =
     (case obj_get c key of
        None \<Rightarrow> evict_loop now keys c removedCount
      | Some item \<Rightarrow>
          (if now - timestamp item \<ge> CACHE_DURATION
           then evict_loop now keys (obj_delete c key) (Suc removedCount)
           else evict_loop now keys c removedCount))"

definition clearExpiredCache :: "fs \<Rightarrow> int \<Rightarrow> nat \<times> fs" where
  "clearExpiredCache s now =
     (case initializeCache s of
        None \<Rightarrow> (0, s)
      | Some s1 \<Rightarrow>
          (case fs_readFile s1 of
             None \<Rightarrow> (0, s1)
           | Some text \<Rightarrow>
               (case JSON_parse text of
                  None \<Rightarrow> (0, s1)
                | Some cache \<Rightarrow>
                    (case evict_loop now (map fst cache) cache 0 of
                       (cache', removedCount) \<Rightarrow>
                         (if removedCount > 0
                          then (case fs_writeFile s1 cache' of
                                  None \<Rightarrow> (0, s1)
                                | Some s2 \<Rightarrow> (removedCount, s2))
                          else (removedCount, s1))))))"

text \<open>
  The error that \<^verbatim>\<open>getCachedOrFetch\<close> throws is \<^verbatim>\<open>new Error(message)\<close>: an
  \<^verbatim>\<open>Error\<close> has a message and, only when the constructor is given one, a cause.
\<close>

datatype js_error = JsError (message: string) (cause: "string option")

definition NO_DATA :: js_error where
  "NO_DATA = JsError ''Failed to fetch data and no cache available'' None"

text \<open>The last three lines of \<^verbatim>\<open>getCachedOrFetch\<close>.\<close>

definition finish :: "json \<Rightarrow> fs \<Rightarrow> (js_error + json) \<times> fs" where
  "finish d s = (if truthy d then (Inr d, s) else (Inl NO_DATA, s))"

text \<open>
  \<^verbatim>\<open>getCachedOrFetch(key, fetchFn, forceRefresh)\<close>. \<open>fetched\<close> is what awaiting
  \<^verbatim>\<open>fetchFn()\<close> gives: \<open>Inr\<close> the value, or \<open>Inl\<close> the failure it rejects with.
  \<open>t1\<close> is the clock when the cache is consulted first, \<open>t2\<close> the clock once the
  fetch has settled (read by \<^verbatim>\<open>saveToCache\<close> or by the second \<^verbatim>\<open>getFromCache\<close>).
\<close>

definition getCachedOrFetch ::
  "fs \<Rightarrow> string \<Rightarrow> string + json \<Rightarrow> bool \<Rightarrow> int \<Rightarrow> int \<Rightarrow> (js_error + json) \<times> fs" where
  "getCachedOrFetch s key fetched forceRefresh t1 t2 =
     (let d0 = (if forceRefresh then JNull else getFromCache s key t1) in
      if truthy d0 then finish d0 s
      else (case fetched of
              Inr d \<Rightarrow> finish d (snd (saveToCache s key d t2))
            | Inl fetchError \<Rightarrow> finish (getFromCache s key t2) s))"

subsection \<open>Reading the model\<close>

text \<open>The entry that the file holds for a key, whatever its age.\<close>

definition stored :: "fs \<Rightarrow> string \<Rightarrow> entry option" where
  "stored s key = (case medium s of Absent \<Rightarrow> None | Garbled \<Rightarrow> None | Doc c \<Rightarrow> map_of c key)"

text \<open>Whether \<^verbatim>\<open>getCachedOrFetch\<close> gets as far as calling \<^verbatim>\<open>fetchFn\<close>.\<close>

definition fetch_needed :: "fs \<Rightarrow> string \<Rightarrow> bool \<Rightarrow> int \<Rightarrow> bool" where
  "fetch_needed s key forceRefresh t1 =
     (if forceRefresh then True
      else if truthy (getFromCache s key t1) then False else True)"

definition healthy :: "medium \<Rightarrow> fs" where
  "healthy m = \<lparr>medium = m, can_read = True, can_write = True, can_mkdir = True, writes = 0\<rparr>"

subsection \<open>Sequences of calls\<close>

text \<open>
  A caller's calls, each with the clock readings it makes: one for \<^verbatim>\<open>getFromCache\<close>,
  \<^verbatim>\<open>saveToCache\<close> and \<^verbatim>\<open>clearExpiredCache\<close>, two for \<^verbatim>\<open>getCachedOrFetch\<close>.
\<close>

datatype call =
    CallGet string int
  | CallPut string json int
  | CallEvict int
  | CallFetch string "string + json" bool int int

fun exec :: "fs \<Rightarrow> call \<Rightarrow> fs" where
  "exec s (CallGet key t) = s"
| "exec s (CallPut key d t) = snd (saveToCache s key d t)"
| "exec s (CallEvict t) = snd (clearExpiredCache s t)"
| "exec s (CallFetch key fetched forceRefresh t1 t2) =
     snd (getCachedOrFetch s key fetched forceRefresh t1 t2)"

definition run :: "fs \<Rightarrow> call list \<Rightarrow> fs" where
  "run s calls = foldl exec s calls"

fun started :: "call \<Rightarrow> int" where
  "started (CallGet key t) = t"
| "started (CallPut key d t) = t"
| "started (CallEvict t) = t"
| "started (CallFetch key fetched forceRefresh t1 t2) = t1"

fun settled :: "call \<Rightarrow> int" where
  "settled (CallGet key t) = t"
| "settled (CallPut key d t) = t"
| "settled (CallEvict t) = t"
| "settled (CallFetch key fetched forceRefresh t1 t2) = t2"

text \<open>The clock never runs backwards from \<open>t\<close> on through the calls.\<close>

fun clock_ok :: "int \<Rightarrow> call list \<Rightarrow> bool" where
  "clock_ok t [] = True"
| "clock_ok t (c # cs) = (t \<le> started c \<and> started c \<le> settled c \<and> clock_ok (settled c) cs)"

text \<open>No entry of the file carries a timestamp later than \<open>t\<close>.\<close>

definition stamps_le :: "fs \<Rightarrow> int \<Rightarrow> bool" where
  "stamps_le s t =
     (case medium s of
        Absent \<Rightarrow> True
      | Garbled \<Rightarrow> True
      | Doc c \<Rightarrow> list_all (\<lambda>p. timestamp (snd p) \<le> t) c)"

subsection \<open>Example states\<close>

definition one_day :: int where
  "one_day = 86400000"

definition stale_fs :: fs where
  "stale_fs = healthy (Doc [(''search_pie'', \<lparr>timestamp = 0, data = JStr ''old''\<rparr>)])"

definition mixed_fs :: fs where
  "mixed_fs = healthy (Doc [(''recipe_1'', \<lparr>timestamp = 0, data = JStr ''a''\<rparr>),
                            (''recipe_2'', \<lparr>timestamp = 5000, data = JArr []\<rparr>)])"

section \<open>Properties\<close>

lemmas io_defs = fs_access_def fs_mkdir_def fs_writeFile_def fs_readFile_def JSON_parse_def
  initializeCache_def

lemmas cache_defs = getFromCache_def saveToCache_def clearExpiredCache_def getCachedOrFetch_def
  finish_def obj_get_def obj_set_def obj_delete_def

lemmas example_defs = healthy_def stale_fs_def mixed_fs_def one_day_def CACHE_DURATION_def
  NO_DATA_def

subsection \<open>Reads\<close>

text \<open>\<^verbatim>\<open>getFromCache\<close> in terms of what the file holds.\<close>

lemma getFromCache_stored:
  "getFromCache s key now =
     (if can_read s
      then (case stored s key of
              None \<Rightarrow> JNull
            | Some e \<Rightarrow> if now - timestamp e < CACHE_DURATION then data e else JNull)
      else JNull)"
  by (simp add: getFromCache_def fs_readFile_def JSON_parse_def obj_get_def stored_def
      split: medium.splits option.splits)

lemma getFromCache_absent: "stored s key = None \<Longrightarrow> getFromCache s key now = JNull"
  by (simp add: getFromCache_stored)

subsection \<open>Writes\<close>

lemma set_update_subset: "set (AList.update k v al) \<subseteq> insert (k, v) (set al)"
  by (induction al) auto

lemma set_obj_set_subset: "set (obj_set c key item) \<subseteq> insert (key, item) (set c)"
  using set_update_subset [of key item c] by (auto simp: obj_set_def split: option.splits)

lemma map_of_obj_set:
  "map_of (obj_set c key \<lparr>timestamp = t, data = d\<rparr>) k = Some e \<Longrightarrow>
     map_of c k = Some e \<or> timestamp e = t"
  by (auto simp: obj_set_def update_conv' split: option.splits if_splits)

text \<open>The four ways a call of \<^verbatim>\<open>saveToCache\<close> can end.\<close>

lemma save_cases:
  "saveToCache s key d t = (False, s) \<or>
   saveToCache s key d t = (False, s\<lparr>medium := Doc [], writes := Suc (writes s)\<rparr>) \<or>
   (\<exists>c w. medium s = Doc c \<and>
      saveToCache s key d t =
        (True, s\<lparr>medium := Doc (obj_set c key \<lparr>timestamp = t, data = d\<rparr>), writes := w\<rparr>)) \<or>
   (medium s = Absent \<and> (\<exists>w.
      saveToCache s key d t =
        (True, s\<lparr>medium := Doc (obj_set [] key \<lparr>timestamp = t, data = d\<rparr>), writes := w\<rparr>)))"
  by (cases "medium s") (auto simp: saveToCache_def io_defs)

text \<open>
  When it answers \<^verbatim>\<open>true\<close>: the file parses and can be read and written, or is missing
  and can be created, read and written. In every other case the answer is \<^verbatim>\<open>false\<close>.
\<close>

lemma save_succeeds_iff:
  "fst (saveToCache s key d t) =
     (case medium s of
        Absent \<Rightarrow> can_mkdir s \<and> can_write s \<and> can_read s
      | Garbled \<Rightarrow> False
      | Doc c \<Rightarrow> can_read s \<and> can_write s)"
  by (cases "medium s") (auto simp: saveToCache_def io_defs)

lemma save_stored:
  assumes "stored (snd (saveToCache s key d t)) k = Some e"
  shows "stored s k = Some e \<or> timestamp e = t"
proof -
  consider "snd (saveToCache s key d t) = s"
    | "snd (saveToCache s key d t) = s\<lparr>medium := Doc [], writes := Suc (writes s)\<rparr>"
    | c w where "medium s = Doc c"
        "snd (saveToCache s key d t) =
           s\<lparr>medium := Doc (obj_set c key \<lparr>timestamp = t, data = d\<rparr>), writes := w\<rparr>"
    | w where "medium s = Absent"
        "snd (saveToCache s key d t) =
           s\<lparr>medium := Doc (obj_set [] key \<lparr>timestamp = t, data = d\<rparr>), writes := w\<rparr>"
    using save_cases [of s key d t] by fastforce
  then show ?thesis
  proof cases
    case 1
    then show ?thesis using assms by simp
  next
    case 2
    then show ?thesis using assms by (simp add: stored_def)
  next
    case 3
    then have "map_of (obj_set c key \<lparr>timestamp = t, data = d\<rparr>) k = Some e"
      using assms by (simp add: stored_def)
    then show ?thesis using 3(1) map_of_obj_set [of c key t d k e] by (simp add: stored_def)
  next
    case 4
    then have "map_of (obj_set [] key \<lparr>timestamp = t, data = d\<rparr>) k = Some e"
      using assms by (simp add: stored_def)
    then show ?thesis using map_of_obj_set [of "[]" key t d k e] by simp
  qed
qed

text \<open>
  A write that reports success has stored the entry, for every key but \<^verbatim>\<open>__proto__\<close>,
  and a read then answers by the age of the entry alone.
\<close>

lemma put_then_stored:
  assumes "fst (saveToCache s key v t)" and "key \<noteq> ''__proto__''"
  shows "stored (snd (saveToCache s key v t)) key = Some \<lparr>timestamp = t, data = v\<rparr>"
  using save_cases [of s key v t] assms
  by (auto simp: stored_def obj_set_def update_conv')

lemma put_keeps_flags:
  "can_read (snd (saveToCache s key v t)) = can_read s \<and>
   can_write (snd (saveToCache s key v t)) = can_write s \<and>
   can_mkdir (snd (saveToCache s key v t)) = can_mkdir s"
  using save_cases [of s key v t] by auto

lemma put_needs_read: "fst (saveToCache s key v t) \<Longrightarrow> can_read s"
  by (cases "medium s") (auto simp: saveToCache_def io_defs split: if_splits)

lemma put_then_get:
  assumes "fst (saveToCache s key v t)" and "key \<noteq> ''__proto__''"
  shows "getFromCache (snd (saveToCache s key v t)) key now =
           (if now - t < CACHE_DURATION then v else JNull)"
  using put_then_stored [OF assms] put_needs_read [OF assms(1)] put_keeps_flags [of s key v t]
  by (simp add: getFromCache_stored)

subsection \<open>The eviction loop\<close>

text \<open>
  What the loop leaves of the object, and what it counts, after the keys \<open>ks\<close>: by
  induction on the keys, with the object and the counter generalised.
\<close>

lemma evict_loop_map_of:
  "map_of (fst (evict_loop now ks c n)) k =
     (case map_of c k of
        None \<Rightarrow> None
      | Some e \<Rightarrow> if k \<in> set ks \<and> CACHE_DURATION \<le> now - timestamp e then None else Some e)"
proof (induction ks arbitrary: c n)
  case Nil
  then show ?case by (simp split: option.splits)
next
  case (Cons key keys)
  show ?case
  proof (cases "obj_get c key")
    case None
    then show ?thesis using Cons.IH [of c n]
      by (auto simp: obj_get_def split: option.splits)
  next
    case (Some item)
    then show ?thesis using Cons.IH [of c n] Cons.IH [of "obj_delete c key" "Suc n"]
      by (auto simp: obj_get_def obj_delete_def delete_conv split: option.splits if_splits)
  qed
qed

lemma evict_loop_count:
  "snd (evict_loop now ks c n) =
     n + card {k \<in> set ks. \<exists>e. map_of c k = Some e \<and> CACHE_DURATION \<le> now - timestamp e}"
proof (induction ks arbitrary: c n)
  case Nil
  then show ?case by simp
next
  case (Cons key keys)
  let ?E = "\<lambda>c. {k \<in> set keys. \<exists>e. map_of c k = Some e \<and> CACHE_DURATION \<le> now - timestamp e}"
  let ?F = "{k \<in> set (key # keys). \<exists>e. map_of c k = Some e \<and> CACHE_DURATION \<le> now - timestamp e}"
  have fin: "finite (?E c)" by simp
  show ?case
  proof (cases "obj_get c key")
    case None
    then have "?F = ?E c"
      by (auto simp: obj_get_def)
    then show ?thesis using None Cons.IH [of c n] by simp
  next
    case (Some item)
    show ?thesis
    proof (cases "CACHE_DURATION \<le> now - timestamp item")
      case True
      have a: "?E (obj_delete c key) = ?E c - {key}"
        by (auto simp: obj_delete_def delete_conv)
      have b: "?F = insert key (?E c)"
        using Some True by (auto simp: obj_get_def)
      have "card (insert key (?E c)) = Suc (card (?E c - {key}))"
        using fin by (rule card.insert_remove)
      then show ?thesis using Some True Cons.IH [of "obj_delete c key" "Suc n"] a b by simp
    next
      case False
      then have "?F = ?E c"
        using Some by (auto simp: obj_get_def)
      then show ?thesis using Some False Cons.IH [of c n] by simp
    qed
  qed
qed

lemma set_evict_loop_subset: "set (fst (evict_loop now ks c n)) \<subseteq> set c"
proof (induction ks arbitrary: c n)
  case Nil
  then show ?case by simp
next
  case (Cons key keys)
  have "set (obj_delete c key) \<subseteq> set c"
    by (auto simp: obj_delete_def AList.delete_eq)
  then show ?case
    using Cons.IH [of c n] Cons.IH [of "obj_delete c key" "Suc n"]
    by (auto split: option.splits)
qed

text \<open>The loop as \<^verbatim>\<open>clearExpiredCache\<close> starts it: over all keys of the object.\<close>

lemma evict_all_map_of:
  "map_of (fst (evict_loop now (map fst c) c 0)) k =
     (case map_of c k of
        None \<Rightarrow> None
      | Some e \<Rightarrow> if CACHE_DURATION \<le> now - timestamp e then None else Some e)"
proof (cases "map_of c k")
  case None
  then show ?thesis by (simp add: evict_loop_map_of)
next
  case (Some e)
  then have "k \<in> set (map fst c)"
    by (metis map_of_eq_None_iff option.distinct(1) set_map)
  then show ?thesis using Some by (simp add: evict_loop_map_of)
qed

lemma evict_all_count:
  "snd (evict_loop now (map fst c) c 0) =
     card {k. \<exists>e. map_of c k = Some e \<and> CACHE_DURATION \<le> now - timestamp e}"
proof -
  have "{k \<in> set (map fst c). \<exists>e. map_of c k = Some e \<and> CACHE_DURATION \<le> now - timestamp e}
        = {k. \<exists>e. map_of c k = Some e \<and> CACHE_DURATION \<le> now - timestamp e}"
    by (force dest: map_of_SomeD)
  then show ?thesis by (simp add: evict_loop_count)
qed

subsection \<open>\<^verbatim>\<open>clearExpiredCache\<close> by what the file holds\<close>

lemma clear_doc:
  assumes "medium s = Doc c"
  shows "clearExpiredCache s now =
     (if can_read s
      then (if 0 < snd (evict_loop now (map fst c) c 0)
            then (if can_write s
                  then (snd (evict_loop now (map fst c) c 0),
                        s\<lparr>medium := Doc (fst (evict_loop now (map fst c) c 0)),
                          writes := Suc (writes s)\<rparr>)
                  else (0, s))
            else (0, s))
      else (0, s))"
  using assms
  by (simp add: clearExpiredCache_def io_defs split: prod.splits)

lemma clear_garbled: "medium s = Garbled \<Longrightarrow> clearExpiredCache s now = (0, s)"
  by (simp add: clearExpiredCache_def io_defs)

lemma clear_absent:
  "medium s = Absent \<Longrightarrow> clearExpiredCache s now =
     (if can_mkdir s
      then (if can_write s then (0, s\<lparr>medium := Doc [], writes := Suc (writes s)\<rparr>) else (0, s))
      else (0, s))"
  by (simp add: clearExpiredCache_def io_defs)

lemma clear_cases:
  "clearExpiredCache s now = (0, s) \<or>
   clearExpiredCache s now = (0, s\<lparr>medium := Doc [], writes := Suc (writes s)\<rparr>) \<or>
   (\<exists>c. medium s = Doc c \<and>
      clearExpiredCache s now =
        (snd (evict_loop now (map fst c) c 0),
         s\<lparr>medium := Doc (fst (evict_loop now (map fst c) c 0)), writes := Suc (writes s)\<rparr>))"
  by (cases "medium s") (auto simp: clear_absent clear_garbled clear_doc)

lemma clear_flags:
  "can_read (snd (clearExpiredCache s now)) = can_read s \<and>
   can_write (snd (clearExpiredCache s now)) = can_write s \<and>
   can_mkdir (snd (clearExpiredCache s now)) = can_mkdir s"
  by (cases "medium s") (simp_all add: clear_absent clear_garbled clear_doc)

lemma finite_expired:
  "finite {k. \<exists>e. stored s k = Some e \<and> CACHE_DURATION \<le> now - timestamp e}"
proof -
  have "{k. \<exists>e. stored s k = Some e \<and> CACHE_DURATION \<le> now - timestamp e} \<subseteq> dom (stored s)"
    by auto
  moreover have "finite (dom (stored s))"
  proof (cases "medium s")
    case (Doc c)
    then have "dom (stored s) = dom (map_of c)"
      by (auto simp: stored_def dom_def)
    then show ?thesis by (simp add: finite_dom_map_of)
  qed (simp_all add: stored_def dom_def)
  ultimately show ?thesis by (rule finite_subset)
qed

lemma clear_count:
  assumes "can_read s" and "can_write s"
  shows "fst (clearExpiredCache s now) =
           card {k. \<exists>e. stored s k = Some e \<and> CACHE_DURATION \<le> now - timestamp e}"
proof (cases "medium s")
  case Absent
  then show ?thesis by (simp add: clear_absent stored_def)
next
  case Garbled
  then show ?thesis by (simp add: clear_garbled stored_def)
next
  case (Doc c)
  then show ?thesis using assms
    by (simp add: clear_doc stored_def evict_all_count)
qed

lemma clear_stored:
  assumes "can_read s" and "can_write s"
  shows "stored (snd (clearExpiredCache s now)) k =
           (case stored s k of
              None \<Rightarrow> None
            | Some e \<Rightarrow> if CACHE_DURATION \<le> now - timestamp e then None else Some e)"
proof (cases "medium s")
  case Absent
  then show ?thesis by (simp add: clear_absent stored_def)
next
  case Garbled
  then show ?thesis by (simp add: clear_garbled stored_def)
next
  case (Doc c)
  show ?thesis
  proof (cases "0 < snd (evict_loop now (map fst c) c 0)")
    case True
    then show ?thesis using Doc assms
      by (simp add: clear_doc stored_def evict_all_map_of)
  next
    case False
    then have "card {k. \<exists>e. stored s k = Some e \<and> CACHE_DURATION \<le> now - timestamp e} = 0"
      using Doc by (simp add: evict_all_count stored_def)
    then have "{k. \<exists>e. stored s k = Some e \<and> CACHE_DURATION \<le> now - timestamp e} = {}"
      using finite_expired [of s now] by simp
    then have "\<And>e. stored s k = Some e \<Longrightarrow> \<not> CACHE_DURATION \<le> now - timestamp e"
      by blast
    then show ?thesis using Doc False assms
      by (auto simp: clear_doc split: option.splits)
  qed
qed

lemma clear_stored_any:
  assumes "stored (snd (clearExpiredCache s now)) k = Some e"
  shows "stored s k = Some e"
  using clear_cases [of s now] assms
  by (auto simp: stored_def evict_all_map_of split: option.splits if_splits)

subsection \<open>Timestamps along a sequence of calls\<close>

lemma stamps_le_mono: "stamps_le s t \<Longrightarrow> t \<le> t' \<Longrightarrow> stamps_le s t'"
  by (auto simp: stamps_le_def list_all_iff split: medium.splits)

lemma stamps_le_stored: "stamps_le s t \<Longrightarrow> stored s k = Some e \<Longrightarrow> timestamp e \<le> t"
  by (auto simp: stamps_le_def stored_def list_all_iff split: medium.splits dest!: map_of_SomeD)

lemma save_stamps:
  assumes "stamps_le s t'" and "t \<le> t'"
  shows "stamps_le (snd (saveToCache s key d t)) t'"
proof -
  have "list_all (\<lambda>p. timestamp (snd p) \<le> t') (obj_set c key \<lparr>timestamp = t, data = d\<rparr>)"
    if "list_all (\<lambda>p. timestamp (snd p) \<le> t') c" for c
    using that set_obj_set_subset [of c key "\<lparr>timestamp = t, data = d\<rparr>"] assms(2)
    by (auto simp: list_all_iff)
  from this [of "[]"] this show ?thesis
    using save_cases [of s key d t] assms(1)
    by (auto simp: stamps_le_def)
qed

lemma clear_stamps:
  assumes "stamps_le s t"
  shows "stamps_le (snd (clearExpiredCache s now)) t"
  using clear_cases [of s now] assms set_evict_loop_subset
  by (fastforce simp: stamps_le_def list_all_iff)

text \<open>\<^verbatim>\<open>getCachedOrFetch\<close> leaves the file as it was or as \<^verbatim>\<open>saveToCache\<close> left it.\<close>

lemma fetch_state:
  "snd (getCachedOrFetch s key fetched forceRefresh t1 t2) = s \<or>
   (\<exists>d. snd (getCachedOrFetch s key fetched forceRefresh t1 t2) = snd (saveToCache s key d t2))"
  by (auto simp: getCachedOrFetch_def finish_def Let_def split: sum.splits)

text \<open>One call: an entry found afterwards was there before, or was stamped by this call.\<close>

lemma exec_stored:
  assumes "stored (exec s c) k = Some e"
  shows "stored s k = Some e \<or> timestamp e = settled c"
proof (cases c)
  case (CallFetch key fetched forceRefresh t1 t2)
  then show ?thesis
    using assms fetch_state [of s key fetched forceRefresh t1 t2]
      save_stored [of s key _ t2 k e] by auto
next
  case (CallPut key d t)
  then show ?thesis using assms save_stored [of s key d t k e] by simp
next
  case (CallEvict t)
  then show ?thesis using assms clear_stored_any [of s t k e] by simp
qed (use assms in simp)

lemma exec_stamps:
  assumes "stamps_le s t" and "t \<le> settled c"
  shows "stamps_le (exec s c) (settled c)"
proof -
  have le: "stamps_le s (settled c)" using assms by (rule stamps_le_mono)
  show ?thesis
  proof (cases c)
    case (CallFetch key fetched forceRefresh t1 t2)
    then show ?thesis
      using le fetch_state [of s key fetched forceRefresh t1 t2] save_stamps [of s t2 t2]
      by auto
  qed (use le save_stamps clear_stamps in auto)
qed

text \<open>
  Many calls: an entry found at the end was there at the start, or is stamped no earlier
  than the start. Induction on the calls, the state and the clock generalised.
\<close>

lemma run_later:
  assumes "stamps_le s t" and "clock_ok t cs" and "stored (run s cs) k = Some e"
  shows "stored s k = Some e \<or> t \<le> timestamp e"
  using assms
proof (induction cs arbitrary: s t)
  case Nil
  then show ?case by (simp add: run_def)
next
  case (Cons c cs)
  have t: "t \<le> settled c" using Cons.prems(2) by simp
  have "stamps_le (exec s c) (settled c)"
    using Cons.prems(1) t by (rule exec_stamps)
  moreover have "clock_ok (settled c) cs" using Cons.prems(2) by simp
  moreover have "stored (run (exec s c) cs) k = Some e"
    using Cons.prems(3) by (simp add: run_def)
  ultimately have "stored (exec s c) k = Some e \<or> settled c \<le> timestamp e"
    by (rule Cons.IH)
  then show ?case using exec_stored [of s c k e] t by auto
qed

lemma run_prefix:
  assumes "stamps_le s t" and "clock_ok t (as @ bs)"
  shows "\<exists>t'. stamps_le (run s as) t' \<and> clock_ok t' bs"
  using assms
proof (induction as arbitrary: s t)
  case Nil
  then show ?case by (auto simp: run_def)
next
  case (Cons c cs)
  have "stamps_le (exec s c) (settled c)"
    using Cons.prems by (auto intro: exec_stamps)
  moreover have "clock_ok (settled c) (cs @ bs)" using Cons.prems(2) by simp
  ultimately have "\<exists>t'. stamps_le (run (exec s c) cs) t' \<and> clock_ok t' bs"
    by (rule Cons.IH)
  then show ?case by (simp add: run_def)
qed

section \<open>The claims\<close>

subsection \<open>Fallback to an expired entry\<close>

text \<open>
  Whenever the entry of a key is stale at both clock readings and the fetch fails, the
  second \<^verbatim>\<open>getFromCache\<close> applies the age test again and finds nothing, so the call
  throws.
\<close>

lemma stale_never_served:
  assumes "stored s key = Some e"
    and "CACHE_DURATION \<le> t1 - timestamp e" and "CACHE_DURATION \<le> t2 - timestamp e"
  shows "getCachedOrFetch s key (Inl fetchError) forceRefresh t1 t2 = (Inl NO_DATA, s)"
  using assms by (simp add: getCachedOrFetch_def finish_def getFromCache_stored)

text \<open>
  Claim C1 (a stale cached value is returned when the fetch fails). The code does not do
  this. The file holds \<^verbatim>\<open>"old"\<close> for \<^verbatim>\<open>search_pie\<close>, stored at time 0; one day later
  the fetch fails, and \<^verbatim>\<open>getCachedOrFetch\<close> throws instead of returning \<^verbatim>\<open>"old"\<close>.
\<close>

theorem stale_entry_not_served:
  "stored stale_fs ''search_pie'' = Some \<lparr>timestamp = 0, data = JStr ''old''\<rparr> \<and>
   getCachedOrFetch stale_fs ''search_pie'' (Inl ''offline'') False one_day one_day =
     (Inl (JsError ''Failed to fetch data and no cache available'' None), stale_fs)"
  by (simp add: cache_defs io_defs example_defs stored_def)

subsection \<open>Falsy fetched values\<close>

text \<open>
  When \<^verbatim>\<open>fetchFn\<close> is called and succeeds with \<open>v\<close>, the value is handed to
  \<^verbatim>\<open>saveToCache\<close> whatever it is; the call returns it when it is truthy (every array
  and object, the empty ones too) and throws when it is falsy.
\<close>

lemma fetch_outcome:
  assumes "fetch_needed s key forceRefresh t1"
  shows "getCachedOrFetch s key (Inr v) forceRefresh t1 t2 =
           (if truthy v then Inr v else Inl NO_DATA, snd (saveToCache s key v t2))"
  using assms by (simp add: getCachedOrFetch_def fetch_needed_def finish_def split: if_splits)

text \<open>An empty list is truthy: it is cached and returned.\<close>

lemma empty_list_fetched:
  "getCachedOrFetch (healthy (Doc [])) ''search_zzz'' (Inr (JArr [])) False 0 0 =
     (Inr (JArr []),
      (healthy (Doc [(''search_zzz'', \<lparr>timestamp = 0, data = JArr []\<rparr>)]))\<lparr>writes := 1\<rparr>)"
  by (simp add: cache_defs io_defs example_defs)

text \<open>
  Claim C2 (a fetch that succeeds with a falsy value is cached and returned). The code
  does not do this for \<^verbatim>\<open>null\<close>: the fetch succeeds, the value is written to the
  cache, and then the call throws "Failed to fetch data and no cache available" instead
  of returning it.
\<close>

theorem null_fetch_rejected:
  "getCachedOrFetch (healthy (Doc [])) ''search_zzz'' (Inr JNull) False 0 0 =
     (Inl (JsError ''Failed to fetch data and no cache available'' None),
      (healthy (Doc [(''search_zzz'', \<lparr>timestamp = 0, data = JNull\<rparr>)]))\<lparr>writes := 1\<rparr>)"
  by (simp add: cache_defs io_defs example_defs)

subsection \<open>No data at all\<close>

text \<open>
  Against claim C3 as stated: the error thrown for a key never cached has the fixed
  message and no cause; the failure \<^verbatim>\<open>ETIMEDOUT\<close> of the fetch is not in it.
\<close>

theorem fetch_failure_dropped_counterexample:
  "fst (getCachedOrFetch (healthy (Doc [])) ''recipe_52772'' (Inl ''ETIMEDOUT'') False 0 0) =
     Inl (JsError ''Failed to fetch data and no cache available'' None)"
  by (simp add: cache_defs io_defs example_defs)

text \<open>
  Claim C3, amended. For a key with no entry in the file and a fetch that fails, the
  call throws the error with the message "Failed to fetch data and no cache available",
  which carries nothing of the fetch failure, and leaves the file as it was.
\<close>

theorem no_data_without_cause:
  assumes "stored s key = None"
  shows "getCachedOrFetch s key (Inl fetchError) forceRefresh t1 t2 =
           (Inl (JsError ''Failed to fetch data and no cache available'' None), s)"
  using assms by (simp add: getCachedOrFetch_def finish_def getFromCache_absent NO_DATA_def)

theorem no_data_without_cause_witness:
  "stored stale_fs ''recipe_52772'' = None \<and>
   getCachedOrFetch stale_fs ''recipe_52772'' (Inl ''ETIMEDOUT'') True 5 9 =
     (Inl (JsError ''Failed to fetch data and no cache available'' None), stale_fs)"
proof -
  have h: "stored stale_fs ''recipe_52772'' = None"
    by (simp add: stored_def example_defs)
  show ?thesis using h no_data_without_cause [OF h, of "''ETIMEDOUT''" True 5 9] by simp
qed

subsection \<open>Content that does not parse\<close>

text \<open>
  Against claim C4 as stated: on content that does not parse, \<^verbatim>\<open>saveToCache\<close>
  answers \<^verbatim>\<open>false\<close> and the content stays.
\<close>

theorem garbled_put_counterexample:
  "saveToCache (healthy Garbled) ''recipe_52772'' (JStr ''v'') 0 = (False, healthy Garbled)"
  by (simp add: cache_defs io_defs example_defs)

text \<open>
  Claim C4, amended. On content that does not parse, a read answers \<^verbatim>\<open>null\<close>, a write
  answers \<^verbatim>\<open>false\<close>, an eviction answers 0 and \<^verbatim>\<open>initializeCache\<close> does nothing;
  none of them throws and none of them changes the content. A missing file differs: the
  first write creates it and stores the entry.
\<close>

theorem garbled_stays_garbled:
  "getFromCache (s\<lparr>medium := Garbled\<rparr>) key now = JNull \<and>
   saveToCache (s\<lparr>medium := Garbled\<rparr>) key v now = (False, s\<lparr>medium := Garbled\<rparr>) \<and>
   clearExpiredCache (s\<lparr>medium := Garbled\<rparr>) now = (0, s\<lparr>medium := Garbled\<rparr>) \<and>
   initializeCache (s\<lparr>medium := Garbled\<rparr>) = Some (s\<lparr>medium := Garbled\<rparr>) \<and>
   fst (saveToCache (healthy Absent) key v now) = True \<and>
   medium (snd (saveToCache (healthy Absent) key v now)) =
     Doc (obj_set [] key \<lparr>timestamp = now, data = v\<rparr>)"
  by (simp add: getFromCache_def saveToCache_def clearExpiredCache_def io_defs healthy_def)

subsection \<open>Expiry as a filter on reads\<close>

text \<open>
  Claim C5 (after expiry a read that ignores freshness still returns the value). The
  entry written at time 0 is read back until the day is over, is hidden from then on
  and stays in the file; but the module has no read that ignores the age: the read that
  \<^verbatim>\<open>getCachedOrFetch\<close> falls back on is \<^verbatim>\<open>getFromCache\<close> again, and the call throws.
\<close>

theorem expired_entry_unreadable:
  "stored (snd (saveToCache (healthy (Doc [])) ''recipe_52772'' (JStr ''v'') 0)) ''recipe_52772''
     = Some \<lparr>timestamp = 0, data = JStr ''v''\<rparr> \<and>
   getFromCache (snd (saveToCache (healthy (Doc [])) ''recipe_52772'' (JStr ''v'') 0))
     ''recipe_52772'' (one_day - 1) = JStr ''v'' \<and>
   getFromCache (snd (saveToCache (healthy (Doc [])) ''recipe_52772'' (JStr ''v'') 0))
     ''recipe_52772'' one_day = JNull \<and>
   getCachedOrFetch (snd (saveToCache (healthy (Doc [])) ''recipe_52772'' (JStr ''v'') 0))
     ''recipe_52772'' (Inl ''offline'') True one_day one_day =
     (Inl (JsError ''Failed to fetch data and no cache available'' None),
      snd (saveToCache (healthy (Doc [])) ''recipe_52772'' (JStr ''v'') 0))"
  by (simp add: cache_defs io_defs example_defs stored_def)

subsection \<open>Reading back what was written\<close>

text \<open>
  Claim C6 (right after a successful write, a read returns the value). For the key
  \<^verbatim>\<open>__proto__\<close> the write answers \<^verbatim>\<open>true\<close>, the file holds no entry and the read
  answers \<^verbatim>\<open>null\<close>.
\<close>

theorem proto_key_not_saved:
  "saveToCache (healthy (Doc [])) ''__proto__'' (JStr ''v'') 0 =
     (True, (healthy (Doc []))\<lparr>writes := 1\<rparr>) \<and>
   getFromCache (snd (saveToCache (healthy (Doc [])) ''__proto__'' (JStr ''v'') 0))
     ''__proto__'' 0 = JNull"
  by (simp add: cache_defs io_defs example_defs)

subsection \<open>Eviction\<close>

text \<open>
  Claim C7. With a file that can be read and written, \<^verbatim>\<open>clearExpiredCache\<close> removes
  the entries of age at least \<^verbatim>\<open>CACHE_DURATION\<close> and no other, leaves every other entry
  as it was, returns the number of keys removed, and returns 0 when called again at the
  same time.
\<close>

theorem evict_exactly_expired:
  assumes "can_read s" and "can_write s"
  shows "(\<forall>k. stored (snd (clearExpiredCache s now)) k =
               (case stored s k of
                  None \<Rightarrow> None
                | Some e \<Rightarrow> if CACHE_DURATION \<le> now - timestamp e then None else Some e)) \<and>
         fst (clearExpiredCache s now) =
           card {k. \<exists>e. stored s k = Some e \<and> CACHE_DURATION \<le> now - timestamp e} \<and>
         fst (clearExpiredCache (snd (clearExpiredCache s now)) now) = 0"
proof -
  let ?s' = "snd (clearExpiredCache s now)"
  have flags: "can_read ?s'" "can_write ?s'"
    using assms by (simp_all add: clear_flags)
  have none: "{k. \<exists>e. stored ?s' k = Some e \<and> CACHE_DURATION \<le> now - timestamp e} = {}"
    using assms by (auto simp: clear_stored split: option.splits if_splits)
  have "fst (clearExpiredCache ?s' now) =
          card {k. \<exists>e. stored ?s' k = Some e \<and> CACHE_DURATION \<le> now - timestamp e}"
    using flags by (rule clear_count)
  also have "\<dots> = 0" unfolding none by simp
  finally have again: "fst (clearExpiredCache ?s' now) = 0" .
  have "\<forall>k. stored ?s' k =
               (case stored s k of
                  None \<Rightarrow> None
                | Some e \<Rightarrow> if CACHE_DURATION \<le> now - timestamp e then None else Some e)"
    using clear_stored [OF assms] by blast
  moreover have "fst (clearExpiredCache s now) =
           card {k. \<exists>e. stored s k = Some e \<and> CACHE_DURATION \<le> now - timestamp e}"
    using assms by (rule clear_count)
  ultimately show ?thesis using again by blast
qed

theorem evict_exactly_expired_witness:
  "can_read mixed_fs \<and> can_write mixed_fs \<and>
   stored (snd (clearExpiredCache mixed_fs one_day)) ''recipe_1'' = None \<and>
   stored (snd (clearExpiredCache mixed_fs one_day)) ''recipe_2'' =
     Some \<lparr>timestamp = 5000, data = JArr []\<rparr> \<and>
   fst (clearExpiredCache mixed_fs one_day) = 1 \<and>
   fst (clearExpiredCache (snd (clearExpiredCache mixed_fs one_day)) one_day) = 0"
proof -
  have r: "can_read mixed_fs" and w: "can_write mixed_fs"
    by (simp_all add: example_defs)
  note t = evict_exactly_expired [OF r w, of one_day]
  have s1: "stored mixed_fs ''recipe_1'' = Some \<lparr>timestamp = 0, data = JStr ''a''\<rparr>"
    and s2: "stored mixed_fs ''recipe_2'' = Some \<lparr>timestamp = 5000, data = JArr []\<rparr>"
    by (simp_all add: stored_def example_defs)
  have d: "CACHE_DURATION \<le> one_day" "\<not> CACHE_DURATION \<le> one_day - 5000"
    by (simp_all add: example_defs)
  have a: "stored (snd (clearExpiredCache mixed_fs one_day)) k =
             (case stored mixed_fs k of
                None \<Rightarrow> None
              | Some e \<Rightarrow> if CACHE_DURATION \<le> one_day - timestamp e then None else Some e)" for k
    using t by blast
  have a1: "stored (snd (clearExpiredCache mixed_fs one_day)) ''recipe_1'' = None"
    using a [of "''recipe_1''"] s1 d by simp
  have a2: "stored (snd (clearExpiredCache mixed_fs one_day)) ''recipe_2'' =
              Some \<lparr>timestamp = 5000, data = JArr []\<rparr>"
    using a [of "''recipe_2''"] s2 d by simp
  have n: "fst (clearExpiredCache mixed_fs one_day) = 1"
    by (simp add: cache_defs io_defs example_defs)
  have z: "fst (clearExpiredCache (snd (clearExpiredCache mixed_fs one_day)) one_day) = 0"
    using t by blast
  show ?thesis using r w a1 a2 n z by blast
qed

text \<open>
  Against claim C8 as stated: with no file, nothing is removed and yet the file is
  written, by the initialisation that the call starts with.
\<close>

theorem absent_medium_written_counterexample:
  "clearExpiredCache (healthy Absent) 0 = (0, (healthy (Doc []))\<lparr>writes := 1\<rparr>)"
  by (simp add: cache_defs io_defs example_defs)

text \<open>
  Claim C8, amended. When the file exists, \<^verbatim>\<open>clearExpiredCache\<close> writes it once if
  it returns a positive count and leaves the whole file system untouched if it returns 0.
\<close>

theorem evict_writes_only_on_removal:
  assumes "medium s \<noteq> Absent"
  shows "writes (snd (clearExpiredCache s now)) =
           (if fst (clearExpiredCache s now) = 0 then writes s else Suc (writes s)) \<and>
         (snd (clearExpiredCache s now) = s) = (fst (clearExpiredCache s now) = 0)"
proof (cases "medium s")
  case Absent
  then show ?thesis using assms by simp
next
  case Garbled
  then show ?thesis by (simp add: clear_garbled)
next
  case (Doc c)
  have neq: "s\<lparr>medium := Doc c', writes := Suc (writes s)\<rparr> \<noteq> s" for c'
  proof
    assume "s\<lparr>medium := Doc c', writes := Suc (writes s)\<rparr> = s"
    then have "writes (s\<lparr>medium := Doc c', writes := Suc (writes s)\<rparr>) = writes s" by simp
    then show False by simp
  qed
  show ?thesis using Doc neq by (simp add: clear_doc)
qed

theorem evict_writes_only_on_removal_witness:
  "medium stale_fs \<noteq> Absent \<and>
   clearExpiredCache stale_fs (one_day - 1) = (0, stale_fs) \<and>
   writes (snd (clearExpiredCache stale_fs (one_day - 1))) = writes stale_fs \<and>
   fst (clearExpiredCache stale_fs one_day) = 1 \<and>
   writes (snd (clearExpiredCache stale_fs one_day)) = Suc (writes stale_fs)"
proof -
  have h: "medium stale_fs \<noteq> Absent"
    by (simp add: example_defs)
  have n0: "fst (clearExpiredCache stale_fs (one_day - 1)) = 0"
    and n1: "fst (clearExpiredCache stale_fs one_day) = 1"
    by (simp_all add: cache_defs io_defs example_defs)
  have same: "snd (clearExpiredCache stale_fs (one_day - 1)) = stale_fs"
    using evict_writes_only_on_removal [OF h, of "one_day - 1"] n0 by simp
  have w0: "writes (snd (clearExpiredCache stale_fs (one_day - 1))) = writes stale_fs"
    using same by simp
  have w1: "writes (snd (clearExpiredCache stale_fs one_day)) = Suc (writes stale_fs)"
    using evict_writes_only_on_removal [OF h, of one_day] n1 by simp
  have "clearExpiredCache stale_fs (one_day - 1) = (0, stale_fs)"
    using n0 same by (simp add: prod_eq_iff)
  then show ?thesis using h w0 n1 w1 by blast
qed

subsection \<open>Timestamps never go back\<close>

text \<open>
  Against claim C9 as stated: \<^verbatim>\<open>saveToCache\<close> stamps the entry with the clock as it
  reads it and never looks at the stamp already stored. Two writes to one key, the clock
  reading 10 at the first and 5 at the second: the later write carries the older stamp.
\<close>

theorem clock_set_back_counterexample:
  "stored (run (healthy Absent) [CallPut ''recipe_1'' (JStr ''a'') 10]) ''recipe_1'' =
     Some \<lparr>timestamp = 10, data = JStr ''a''\<rparr> \<and>
   stored (run (healthy Absent)
             [CallPut ''recipe_1'' (JStr ''a'') 10, CallPut ''recipe_1'' (JStr ''b'') 5])
          ''recipe_1'' = Some \<lparr>timestamp = 5, data = JStr ''b''\<rparr>"
  by (simp add: run_def stored_def cache_defs io_defs example_defs)

text \<open>
  Claim C9, amended. Along any sequence of calls whose clock readings never decrease,
  starting from a file with no timestamp later than the first reading, the timestamp
  that a key carries at a later point is at least the one it carried at an earlier point.
\<close>

theorem stored_at_never_decreases:
  assumes "stamps_le s0 t0" and "clock_ok t0 (as @ bs)"
    and "stored (run s0 as) k = Some e" and "stored (run s0 (as @ bs)) k = Some e'"
  shows "timestamp e \<le> timestamp e'"
proof -
  obtain t' where t': "stamps_le (run s0 as) t'" "clock_ok t' bs"
    using run_prefix [OF assms(1,2)] by blast
  have "stored (run (run s0 as) bs) k = Some e'"
    using assms(4) by (simp add: run_def)
  with t' have "stored (run s0 as) k = Some e' \<or> t' \<le> timestamp e'"
    by (rule run_later)
  moreover have "timestamp e \<le> t'"
    using t'(1) assms(3) by (rule stamps_le_stored)
  ultimately show ?thesis using assms(3) by auto
qed

theorem stored_at_never_decreases_witness:
  "stamps_le (healthy Absent) 0 \<and>
   clock_ok 0 ([CallPut ''recipe_1'' (JStr ''a'') 10] @
               [CallGet ''recipe_1'' 15, CallFetch ''recipe_1'' (Inr (JStr ''b'')) True 20 30]) \<and>
   stored (run (healthy Absent) [CallPut ''recipe_1'' (JStr ''a'') 10]) ''recipe_1'' =
     Some \<lparr>timestamp = 10, data = JStr ''a''\<rparr> \<and>
   stored (run (healthy Absent)
             ([CallPut ''recipe_1'' (JStr ''a'') 10] @
              [CallGet ''recipe_1'' 15, CallFetch ''recipe_1'' (Inr (JStr ''b'')) True 20 30]))
          ''recipe_1'' = Some \<lparr>timestamp = 30, data = JStr ''b''\<rparr> \<and>
   timestamp \<lparr>timestamp = 10, data = JStr ''a''\<rparr> \<le> timestamp \<lparr>timestamp = 30, data = JStr ''b''\<rparr>"
proof -
  have h1: "stamps_le (healthy Absent) 0"
    by (simp add: stamps_le_def example_defs)
  have h2: "clock_ok 0 ([CallPut ''recipe_1'' (JStr ''a'') 10] @
               [CallGet ''recipe_1'' 15, CallFetch ''recipe_1'' (Inr (JStr ''b'')) True 20 30])"
    by simp
  have h3: "stored (run (healthy Absent) [CallPut ''recipe_1'' (JStr ''a'') 10]) ''recipe_1'' =
     Some \<lparr>timestamp = 10, data = JStr ''a''\<rparr>"
    by (simp add: run_def stored_def cache_defs io_defs example_defs)
  have h4: "stored (run (healthy Absent)
             ([CallPut ''recipe_1'' (JStr ''a'') 10] @
              [CallGet ''recipe_1'' 15, CallFetch ''recipe_1'' (Inr (JStr ''b'')) True 20 30]))
          ''recipe_1'' = Some \<lparr>timestamp = 30, data = JStr ''b''\<rparr>"
    by (simp add: run_def stored_def cache_defs io_defs example_defs)
  show ?thesis
    using h1 h2 h3 h4 stored_at_never_decreases [OF h1 h2 h3 h4] by blast
qed

subsection \<open>A write that fails\<close>

text \<open>
  What \<^verbatim>\<open>saveToCache\<close> answers is not looked at: a truthy fetched value is returned
  also when the write has failed.
\<close>

lemma failed_save_keeps_truthy:
  assumes "truthy v" and "fetch_needed s key forceRefresh t1"
    and "fst (saveToCache s key v t2) = False"
  shows "fst (getCachedOrFetch s key (Inr v) forceRefresh t1 t2) = Inr v"
  using assms by (simp add: getCachedOrFetch_def fetch_needed_def finish_def split: if_splits)

lemma failed_save_keeps_empty_object:
  "fst (saveToCache ((healthy (Doc []))\<lparr>can_write := False\<rparr>) ''search_zzz'' (JObj []) 0) = False \<and>
   fst (getCachedOrFetch ((healthy (Doc []))\<lparr>can_write := False\<rparr>) ''search_zzz''
          (Inr (JObj [])) False 0 0) = Inr (JObj [])"
  by (simp add: cache_defs io_defs example_defs)

text \<open>
  Claim C10 (a fetched value is returned even when the write fails). The code does not
  do this for the value 0: the fetch succeeds, the write fails on content that does not
  parse, and the call throws instead of returning 0.
\<close>

theorem zero_fetch_rejected_unsaved:
  "fst (saveToCache (healthy Garbled) ''search_zzz'' (JNum 0) 0) = False \<and>
   getCachedOrFetch (healthy Garbled) ''search_zzz'' (Inr (JNum 0)) False 0 0 =
     (Inl (JsError ''Failed to fetch data and no cache available'' None), healthy Garbled)"
  by (simp add: cache_defs io_defs example_defs)

end
